theory Spec2Isabelle
  imports Complex_Main "HOL-Library.Sublist" "HOL-Library.Log_Nat"
begin

section \<open>Data model\<close>

text \<open>
  JavaScript numbers are IEEE 754 binary64 values. Finite numbers are rationals here, at
  two levels of arithmetic. At the exact level the operations of the component (\<open>/\<close>,
  \<open>*\<close>, \<open>+\<close>, \<open>-\<close>, \<open>Math.min\<close>, \<open>\<le>\<close>) are taken without rounding; the statements
  about the formula, the drop rule and the order of the output are made there. At the
  binary64 level the result of every operation is rounded as JavaScript rounds it; the
  statements about exact values and whole numbers are made there. The one non-finite
  value of the source, \<open>Infinity\<close>, has a constructor of its own.
\<close>

datatype number = Finite rat | Infinity

text \<open>\<open>Math.min(a, b)\<close> where the second argument is finite: the result is finite.\<close>

fun Math_min :: "number \<Rightarrow> rat \<Rightarrow> rat" where
  "Math_min Infinity b = b"
| "Math_min (Finite a) b = min a b"

subsection \<open>Binary64 rounding\<close>

text \<open>
  \<open>fl64 x\<close> is the binary64 value nearest to \<open>x\<close>, ties to the even significand: \<open>x\<close> is
  scaled by the unit in the last place \<open>2 ^ e\<close> of its binade, \<open>e = max (\<lfloor>log2 \<bar>x\<bar>\<rfloor> - 52)
  (- 1074)\<close> (the second bound gives the subnormal numbers), and rounded to an integer.
  Each arithmetic operation of JavaScript returns the rounded exact result. The model has
  no overflow: where \<open>\<bar>fl64 x\<bar>\<close> reaches \<open>2 ^ 1024\<close> JavaScript gives an infinity, and the
  theorems at this level assume that the values stay below.
\<close>

definition pow2 :: "int \<Rightarrow> rat" where
  "pow2 e = (if 0 \<le> e then 2 ^ nat e else 1 / 2 ^ nat (- e))"

definition round_half_even :: "rat \<Rightarrow> int" where
  "round_half_even x =
     (let f = \<lfloor>x\<rfloor>; r = x - of_int f
      in if r < 1 / 2 then f else if 1 / 2 < r then f + 1 else if even f then f else f + 1)"

text \<open>\<open>\<lfloor>log2 \<bar>x\<bar>\<rfloor>\<close> for \<open>x \<noteq> 0\<close>, from the bit lengths of numerator and denominator.\<close>

definition ilog2 :: "rat \<Rightarrow> int" where
  "ilog2 x =
     (let k = bitlen (fst (quotient_of \<bar>x\<bar>)) - bitlen (snd (quotient_of \<bar>x\<bar>))
      in if pow2 k \<le> \<bar>x\<bar> then k else k - 1)"

definition fl64 :: "rat \<Rightarrow> rat" where
  "fl64 x =
     (if x = 0 then 0
      else let e = max (ilog2 x - 52) (- 1074)
           in of_int (round_half_even (x / pow2 e)) * pow2 e)"


definition mul64 :: "rat \<Rightarrow> rat \<Rightarrow> rat" where
  "mul64 a b = fl64 (a * b)"



record caption =
  caption_startMs :: rat
  caption_text :: string

record page =
  startMs :: rat
  tokens :: "caption list"

text \<open>The props of one rendered \<open>Sequence\<close> element and the page of its \<open>SubtitlePage\<close> child.\<close>

record sequence =
  seq_key :: nat
  seq_from :: rat
  seq_durationInFrames :: rat
  seq_page :: page

section \<open>The page-to-frame mapping of \<open>CaptionedVideo\<close>\<close>

definition SWITCH_CAPTIONS_EVERY_MS :: rat where
  "SWITCH_CAPTIONS_EVERY_MS = 1200"

text \<open>
  The callback of \<open>pages.map((page, index) => ...)\<close>. \<open>pages[index + 1] ?? null\<close> is
  \<open>None\<close> past the end of the array; \<open>return null\<close> is \<open>None\<close>.
\<close>

definition render_page :: "rat \<Rightarrow> page list \<Rightarrow> page \<Rightarrow> nat \<Rightarrow> sequence option" where
  "render_page fps pages page index =
     (let nextPage = (if index + 1 < length pages then Some (pages ! (index + 1)) else None);
          subtitleStartFrame = (startMs page / 1000) * fps;
          subtitleEndFrame =
            Math_min
              (case nextPage of
                 Some np \<Rightarrow> Finite ((startMs np / 1000) * fps)
               | None \<Rightarrow> Infinity)
              (subtitleStartFrame + SWITCH_CAPTIONS_EVERY_MS);
          durationInFrames = subtitleEndFrame - subtitleStartFrame
      in if durationInFrames \<le> 0 then None
         else Some \<lparr>seq_key = index, seq_from = subtitleStartFrame,
                    seq_durationInFrames = durationInFrames, seq_page = page\<rparr>)"

definition pages_map :: "rat \<Rightarrow> page list \<Rightarrow> sequence option list" where
  "pages_map fps pages =
     map (\<lambda>index. render_page fps pages (pages ! index) index) [0..<length pages]"

text \<open>React renders nothing for a \<open>null\<close> child: the elements on screen are the others.\<close>

primrec drop_nulls :: "'a option list \<Rightarrow> 'a list" where
  "drop_nulls [] = []"
| "drop_nulls (x # xs) = (case x of None \<Rightarrow> drop_nulls xs | Some y \<Rightarrow> y # drop_nulls xs)"

definition sequences :: "rat \<Rightarrow> page list \<Rightarrow> sequence list" where
  "sequences fps pages = drop_nulls (pages_map fps pages)"

text \<open>
  The local constants of the callback, as functions of its arguments; \<open>render_page_eq\<close>
  below states the callback in their terms.
\<close>

definition subtitleStartFrame :: "rat \<Rightarrow> page \<Rightarrow> rat" where
  "subtitleStartFrame fps page = (startMs page / 1000) * fps"

definition subtitleEndFrame :: "rat \<Rightarrow> page list \<Rightarrow> page \<Rightarrow> nat \<Rightarrow> rat" where
  "subtitleEndFrame fps pages page index =
     Math_min
       (if index + 1 < length pages then Finite ((startMs (pages ! (index + 1)) / 1000) * fps)
        else Infinity)
       (subtitleStartFrame fps page + SWITCH_CAPTIONS_EVERY_MS)"

definition durationInFrames :: "rat \<Rightarrow> page list \<Rightarrow> page \<Rightarrow> nat \<Rightarrow> rat" where
  "durationInFrames fps pages page index =
     subtitleEndFrame fps pages page index - subtitleStartFrame fps page"

subsection \<open>The mapping in binary64\<close>








section \<open>The caption grouper\<close>

text \<open>
  Modelled from the spec: \<open>createTikTokStyleCaptions\<close> is imported from the package
  \<open>@remotion/captions\<close> and only called in \<open>CaptionedVideo\<close>; its body is not among the
  sources. The definitions of this section follow the specification's section 4.1
  (\<open>group(captions, thresholdMs)\<close>): the gap of a caption is measured from the start of
  the current page; a gap below the threshold appends the caption to the current page,
  any other gap closes the page and opens a new one at this caption.
\<close>

definition new_page :: "caption \<Rightarrow> page" where
  "new_page c = \<lparr>startMs = caption_startMs c, tokens = [c]\<rparr>"

text \<open>Modelled from the spec: appending a caption to the current page.\<close>

definition append_caption :: "page \<Rightarrow> caption \<Rightarrow> page" where
  "append_caption p c = p\<lparr>tokens := tokens p @ [c]\<rparr>"

text \<open>Modelled from the spec: the gap between a caption's start and the page's start.\<close>

definition gap :: "caption \<Rightarrow> page \<Rightarrow> rat" where
  "gap c p = caption_startMs c - startMs p"

text \<open>Modelled from the spec: the walk over the captions after the first, with the current page.\<close>

fun walk :: "rat \<Rightarrow> page \<Rightarrow> caption list \<Rightarrow> page list" where
  "walk thresholdMs current [] = [current]"
| "walk thresholdMs current (c # cs) =
     (if gap c current < thresholdMs
      then walk thresholdMs (append_caption current c) cs
      else current # walk thresholdMs (new_page c) cs)"

text \<open>Modelled from the spec: empty input gives no page; the first caption starts a page.\<close>

fun group :: "caption list \<Rightarrow> rat \<Rightarrow> page list" where
  "group [] thresholdMs = []"
| "group (c # cs) thresholdMs = walk thresholdMs (new_page c) cs"

text \<open>
  Modelled from the spec: a page is a run of captions. It is not empty, it starts at its
  first token and its other tokens are within the threshold of its start.
\<close>

definition run_ok :: "rat \<Rightarrow> page \<Rightarrow> bool" where
  "run_ok t p \<longleftrightarrow>
     tokens p \<noteq> [] \<and> startMs p = caption_startMs (hd (tokens p)) \<and>
     (\<forall>c \<in> set (tl (tokens p)). gap c p < t)"

section \<open>Loading the subtitles: \<open>fetchSubtitles\<close>\<close>

text \<open>
  A call that may throw (or a promise that may reject) has an \<open>outcome\<close>. The environment
  holds the outcomes of the external calls of \<open>fetchSubtitles\<close>; the state holds the
  \<open>subtitles\<close> of \<open>useState\<close> and the handles passed to \<open>continueRender\<close>, in call order.
  The decoded JSON is taken at the type the source casts it to (\<open>Caption[]\<close>).
\<close>

datatype 'a outcome = Throws | Returns 'a

record response =
  ok :: bool
  status :: nat
  json :: "caption list outcome"

record environment =
  loadFont :: "unit outcome"
  getStaticFiles :: "string list"
  fetch :: "string \<Rightarrow> response outcome"

record component_state =
  subtitles :: "caption list"
  continued :: "string list"

definition getFileExists :: "environment \<Rightarrow> string \<Rightarrow> bool" where
  "getFileExists env file = (find (\<lambda>src. src = file) (getStaticFiles env) \<noteq> None)"

definition setSubtitles :: "caption list \<Rightarrow> component_state \<Rightarrow> component_state" where
  "setSubtitles data st = st\<lparr>subtitles := data\<rparr>"

definition continueRender :: "string \<Rightarrow> component_state \<Rightarrow> component_state" where
  "continueRender h st = st\<lparr>continued := continued st @ [h]\<rparr>"

text \<open>\<open>!handle\<close> for \<open>handle: string | null\<close>: \<open>null\<close> and the empty string are falsy.\<close>

definition falsy :: "string option \<Rightarrow> bool" where
  "falsy handle \<longleftrightarrow> (case handle of None \<Rightarrow> True | Some h \<Rightarrow> h = [])"

text \<open>The body of the \<open>try\<close> block; \<open>Throws\<close> is control passing to the \<open>catch\<close> block.\<close>

definition try_block ::
  "string \<Rightarrow> string \<Rightarrow> environment \<Rightarrow> component_state \<Rightarrow> component_state outcome" where
  "try_block h subtitlesFile env st =
     (case loadFont env of
        Throws \<Rightarrow> Throws
      | Returns _ \<Rightarrow>
          if \<not> getFileExists env subtitlesFile
          then Returns (continueRender h (setSubtitles [] st))
          else (case fetch env subtitlesFile of
                  Throws \<Rightarrow> Throws
                | Returns res \<Rightarrow>
                    if \<not> ok res then Throws
                    else (case json res of
                            Throws \<Rightarrow> Throws
                          | Returns data \<Rightarrow> Returns (continueRender h (setSubtitles data st)))))"

definition fetchSubtitles ::
  "string option \<Rightarrow> string \<Rightarrow> environment \<Rightarrow> component_state \<Rightarrow> component_state outcome" where
  "fetchSubtitles handle subtitlesFile env st =
     (if falsy handle then Returns st
      else (case try_block (the handle) subtitlesFile env st of
              Returns st' \<Rightarrow> Returns st'
            | Throws \<Rightarrow> Returns (continueRender (the handle) (setSubtitles [] st))))"

section \<open>Composition metadata: \<open>calculateCaptionedVideoMetadata\<close>\<close>

text \<open>
  The argument is the outcome of \<open>getVideoMetadata(props.src)\<close>; a rejection is not caught.
  Only \<open>durationInSeconds\<close> of the probed metadata is read; the record scheme leaves its
  other fields open. \<open>Math.floor\<close> is applied to the binary64 product.
\<close>

record video_metadata =
  durationInSeconds :: rat

record composition_metadata =
  meta_fps :: rat
  meta_durationInFrames :: int

definition calculateCaptionedVideoMetadata ::
  "'a video_metadata_scheme outcome \<Rightarrow> composition_metadata outcome" where
  "calculateCaptionedVideoMetadata probe =
     (let fps = 30 in
      case probe of
        Throws \<Rightarrow> Throws
      | Returns metadata \<Rightarrow>
          Returns \<lparr>meta_fps = fps,
                   meta_durationInFrames = \<lfloor>mul64 (durationInSeconds metadata) fps\<rfloor>\<rparr>)"

section \<open>Concrete inputs\<close>

text \<open>A page with one token, for the concrete instances below.\<close>

definition mk_page :: "rat \<Rightarrow> page" where
  "mk_page ms = \<lparr>startMs = ms, tokens = [\<lparr>caption_startMs = ms, caption_text = ''w''\<rparr>]\<rparr>"

definition cap :: "rat \<Rightarrow> string \<Rightarrow> caption" where
  "cap ms w = \<lparr>caption_startMs = ms, caption_text = w\<rparr>"

text \<open>No subtitle file among the static files, and a state that still holds a caption.\<close>

definition env_missing :: environment where
  "env_missing = \<lparr>loadFont = Returns (), getStaticFiles = [''video.mp4''],
                   fetch = (\<lambda>_. Throws)\<rparr>"

definition st_loaded :: component_state where
  "st_loaded = \<lparr>subtitles = [cap 0 ''a''], continued = []\<rparr>"

section \<open>Helper lemmas\<close>

lemma set_drop_nulls: "set (drop_nulls xs) = {y. Some y \<in> set xs}"
  by (induction xs) (auto split: option.splits)

lemma drop_nulls_append: "drop_nulls (xs @ ys) = drop_nulls xs @ drop_nulls ys"
  by (induction xs) (auto split: option.splits)

lemma render_page_eq:
  "render_page fps pages page index =
     (if durationInFrames fps pages page index \<le> 0 then None
      else Some \<lparr>seq_key = index, seq_from = subtitleStartFrame fps page,
                 seq_durationInFrames = durationInFrames fps pages page index,
                 seq_page = page\<rparr>)"
  unfolding render_page_def Let_def durationInFrames_def subtitleEndFrame_def
    subtitleStartFrame_def
  by (simp only: if_distrib[of "case_option _ _"] option.case split: if_splits)

lemma render_page_positive:
  "render_page fps pages p i = Some s \<Longrightarrow> 0 < seq_durationInFrames s"
  by (auto simp: render_page_eq split: if_splits)

lemma render_page_key_page:
  "render_page fps pages p i = Some s \<Longrightarrow> seq_key s = i \<and> seq_page s = p"
  by (auto simp: render_page_eq split: if_splits)

lemma sequences_origin:
  "s \<in> set (sequences fps pages) \<Longrightarrow>
     \<exists>i < length pages. render_page fps pages (pages ! i) i = Some s"
  by (auto simp: sequences_def pages_map_def set_drop_nulls)

lemma sequences_example:
  "sequences 30 [mk_page 0, mk_page 1300] =
     [\<lparr>seq_key = 0, seq_from = 0, seq_durationInFrames = 39, seq_page = mk_page 0\<rparr>,
      \<lparr>seq_key = 1, seq_from = 39, seq_durationInFrames = 1200, seq_page = mk_page 1300\<rparr>]"
  by (simp add: sequences_def pages_map_def render_page_def SWITCH_CAPTIONS_EVERY_MS_def
      mk_page_def upt_rec)

subsection \<open>The page-to-frame mapping\<close>

lemma Math_min_if:
  "Math_min (if c then Finite a else Infinity) b = (if c then min a b else b)"
  by simp


lemma pages_map_nth:
  "i < length pages \<Longrightarrow> pages_map fps pages ! i = render_page fps pages (pages ! i) i"
  by (simp add: pages_map_def)

lemma durationInFrames_unfold:
  "durationInFrames fps pages page index =
     (if index + 1 < length pages
      then min (startMs (pages ! (index + 1)) / 1000 * fps)
               (startMs page / 1000 * fps + SWITCH_CAPTIONS_EVERY_MS)
      else startMs page / 1000 * fps + SWITCH_CAPTIONS_EVERY_MS) - startMs page / 1000 * fps"
  by (simp only: durationInFrames_def subtitleEndFrame_def subtitleStartFrame_def Math_min_if)

lemma drop_nulls_indices:
  assumes g: "\<And>i s. i < length xs \<Longrightarrow> g i = Some s \<Longrightarrow> seq_key s = i \<and> seq_page s = xs ! i"
  shows "n \<le> length xs \<Longrightarrow>
         subseq (map seq_page (drop_nulls (map g [0..<n]))) (take n xs) \<and>
         sorted_wrt (<) (map seq_key (drop_nulls (map g [0..<n]))) \<and>
         (\<forall>s \<in> set (drop_nulls (map g [0..<n])). seq_key s < n)"
proof (induction n)
  case 0
  then show ?case by simp
next
  case (Suc n)
  then have n: "n < length xs" and IH:
    "subseq (map seq_page (drop_nulls (map g [0..<n]))) (take n xs)"
    "sorted_wrt (<) (map seq_key (drop_nulls (map g [0..<n])))"
    "\<forall>s \<in> set (drop_nulls (map g [0..<n])). seq_key s < n"
    by simp_all
  have tk: "take (Suc n) xs = take n xs @ [xs ! n]"
    using n by (simp add: take_Suc_conv_app_nth)
  show ?case
  proof (cases "g n")
    case None
    have "subseq (map seq_page (drop_nulls (map g [0..<n]))) (take n xs @ [xs ! n])"
      using IH(1) by (rule subseq_rev_drop_many)
    with IH None show ?thesis
      unfolding tk by (auto simp: drop_nulls_append intro: less_SucI)
  next
    case (Some s)
    with g[OF n] have ks: "seq_key s = n" "seq_page s = xs ! n" by simp_all
    have "subseq (map seq_page (drop_nulls (map g [0..<n])) @ [xs ! n]) (take n xs @ [xs ! n])"
      using IH(1) by (intro list_emb_append_mono) simp_all
    with IH Some ks show ?thesis
      unfolding tk
      by (auto simp: drop_nulls_append sorted_wrt_append intro: less_SucI)
  qed
qed

lemma sequences_example_dup:
  "sequences 30 [mk_page 0, mk_page 0, mk_page 1300] =
     [\<lparr>seq_key = 1, seq_from = 0, seq_durationInFrames = 39, seq_page = mk_page 0\<rparr>,
      \<lparr>seq_key = 2, seq_from = 39, seq_durationInFrames = 1200, seq_page = mk_page 1300\<rparr>]"
  by (simp add: sequences_def pages_map_def render_page_def SWITCH_CAPTIONS_EVERY_MS_def
      mk_page_def upt_rec)

lemma pages_map_example_dup:
  "pages_map 30 [mk_page 0, mk_page 0, mk_page 1300] =
     [None,
      Some \<lparr>seq_key = 1, seq_from = 0, seq_durationInFrames = 39, seq_page = mk_page 0\<rparr>,
      Some \<lparr>seq_key = 2, seq_from = 39, seq_durationInFrames = 1200, seq_page = mk_page 1300\<rparr>]"
  by (simp add: pages_map_def render_page_def SWITCH_CAPTIONS_EVERY_MS_def
      mk_page_def upt_rec)

subsection \<open>Binary64 rounding and the mapping in binary64\<close>


















lemma mul64_example: "mul64 (6004799503160661 / 9007199254740992) 30 = 20"
  by code_simp




subsection \<open>The caption grouper\<close>

lemma walk_not_Nil: "walk t cur cs \<noteq> []"
  by (induction cs arbitrary: cur) auto

lemma concat_walk: "concat (map tokens (walk t cur cs)) = tokens cur @ cs"
  by (induction cs arbitrary: cur) (auto simp: append_caption_def new_page_def)

lemma walk_snoc:
  "walk t cur (cs @ [c]) =
     (if gap c (last (walk t cur cs)) < t
      then butlast (walk t cur cs) @ [append_caption (last (walk t cur cs)) c]
      else walk t cur cs @ [new_page c])"
proof (induction cs arbitrary: cur)
  case Nil
  then show ?case by simp
next
  case (Cons a cs)
  show ?case
    by (simp add: Cons.IH walk_not_Nil)
qed

lemma group_snoc:
  "group (cs @ [c]) t =
     (if cs = [] then [new_page c]
      else if gap c (last (group cs t)) < t
      then butlast (group cs t) @ [append_caption (last (group cs t)) c]
      else group cs t @ [new_page c])"
  by (cases cs) (simp_all add: walk_snoc)

lemma run_ok_new_page: "run_ok t (new_page c)"
  by (simp add: run_ok_def new_page_def)

lemma run_ok_append: "run_ok t p \<Longrightarrow> gap c p < t \<Longrightarrow> run_ok t (append_caption p c)"
  by (auto simp: run_ok_def append_caption_def gap_def)

lemma walk_run_ok: "run_ok t cur \<Longrightarrow> p \<in> set (walk t cur cs) \<Longrightarrow> run_ok t p"
proof (induction cs arbitrary: cur)
  case Nil
  then show ?case by simp
next
  case (Cons c cs)
  show ?case
  proof (cases "gap c cur < t")
    case True
    then have "run_ok t (append_caption cur c)"
      using Cons.prems(1) by (simp add: run_ok_append)
    moreover have "p \<in> set (walk t (append_caption cur c) cs)"
      using Cons.prems(2) True by simp
    ultimately show ?thesis by (rule Cons.IH)
  next
    case False
    then have "p = cur \<or> p \<in> set (walk t (new_page c) cs)"
      using Cons.prems(2) by simp
    then show ?thesis
      using Cons.prems(1) Cons.IH[OF run_ok_new_page] by blast
  qed
qed

lemma walk_hd:
  "startMs (hd (walk t cur cs)) = startMs cur \<and>
   (tokens cur \<noteq> [] \<longrightarrow> hd (tokens (hd (walk t cur cs))) = hd (tokens cur))"
  by (induction cs arbitrary: cur) (auto simp: append_caption_def)

lemma walk_maximal:
  "successively (\<lambda>p q. \<not> gap (hd (tokens q)) p < t) (walk t cur cs)"
proof (induction cs arbitrary: cur)
  case Nil
  then show ?case by simp
next
  case (Cons c cs)
  have "hd (tokens (hd (walk t (new_page c) cs))) = c"
    using walk_hd[of t "new_page c" cs] by (simp add: new_page_def)
  then show ?case
    using Cons.IH by (simp add: successively_Cons walk_not_Nil)
qed

section \<open>Claims\<close>






text \<open>
  C3: stated on the grouper as the specification describes it. Adding one more caption
  at the end appends it to the last page exactly when its gap to the start of that page
  is below the threshold, and otherwise leaves the pages as they are and opens a new page
  at that caption. Every page starts at its first token, and its other tokens are within
  the threshold of the page start. The first token of each following page is not within
  the threshold of the page before it, so each page is a maximal run.
\<close>

theorem C3_grouping_rule:
  "group (captions @ [c]) thresholdMs =
     (if captions = [] then [new_page c]
      else if gap c (last (group captions thresholdMs)) < thresholdMs
      then butlast (group captions thresholdMs) @
             [append_caption (last (group captions thresholdMs)) c]
      else group captions thresholdMs @ [new_page c]) \<and>
   (\<forall>p \<in> set (group captions thresholdMs).
      tokens p \<noteq> [] \<and> startMs p = caption_startMs (hd (tokens p)) \<and>
      (\<forall>d \<in> set (tl (tokens p)). gap d p < thresholdMs)) \<and>
   successively (\<lambda>p q. \<not> gap (hd (tokens q)) p < thresholdMs) (group captions thresholdMs)"
proof -
  have snoc: "group (captions @ [c]) thresholdMs =
     (if captions = [] then [new_page c]
      else if gap c (last (group captions thresholdMs)) < thresholdMs
      then butlast (group captions thresholdMs) @
             [append_caption (last (group captions thresholdMs)) c]
      else group captions thresholdMs @ [new_page c])"
    by (rule group_snoc)
  have runs: "run_ok thresholdMs p" if "p \<in> set (group captions thresholdMs)" for p
  proof (cases captions)
    case Nil
    with that show ?thesis by simp
  next
    case (Cons a as)
    with that show ?thesis
      using walk_run_ok[OF run_ok_new_page] by simp
  qed
  have maximal:
    "successively (\<lambda>p q. \<not> gap (hd (tokens q)) p < thresholdMs) (group captions thresholdMs)"
    by (cases captions) (simp_all add: walk_maximal)
  from runs have "\<forall>p \<in> set (group captions thresholdMs).
      tokens p \<noteq> [] \<and> startMs p = caption_startMs (hd (tokens p)) \<and>
      (\<forall>d \<in> set (tl (tokens p)). gap d p < thresholdMs)"
    unfolding run_ok_def by blast
  with snoc maximal show ?thesis by (intro conjI)
qed

theorem C3_witness:
  "group ([cap 0 ''a'', cap 1000 ''b''] @ [cap 1300 ''c'']) 1200 =
     [\<lparr>startMs = 0, tokens = [cap 0 ''a'', cap 1000 ''b'']\<rparr>,
      \<lparr>startMs = 1300, tokens = [cap 1300 ''c'']\<rparr>] \<and>
   \<lparr>startMs = 0, tokens = [cap 0 ''a'', cap 1000 ''b'']\<rparr>
     \<in> set (group [cap 0 ''a'', cap 1000 ''b''] 1200) \<and>
   cap 1000 ''b'' \<in> set (tl (tokens \<lparr>startMs = 0, tokens = [cap 0 ''a'', cap 1000 ''b'']\<rparr>)) \<and>
   gap (cap 1000 ''b'') \<lparr>startMs = 0, tokens = [cap 0 ''a'', cap 1000 ''b'']\<rparr> < 1200"
  using C3_grouping_rule [of "[cap 0 ''a'', cap 1000 ''b'']" "cap 1300 ''c''" 1200]
  by (simp add: new_page_def append_caption_def gap_def cap_def)

text \<open>
  C4: stated on the grouper as the specification describes it. Concatenating the tokens
  of all pages in page order gives back the caption sequence, for every sequence and
  every threshold.
\<close>

theorem C4_roundtrip: "concat (map tokens (group captions thresholdMs)) = captions"
  by (cases captions) (simp_all add: concat_walk new_page_def)

text \<open>
  C5: no \<open>Sequence\<close> rendered by the page mapping has \<open>durationInFrames \<le> 0\<close>, for
  every page sequence and frame rate.
\<close>

theorem C5_no_nonpositive_duration:
  "s \<in> set (sequences fps pages) \<Longrightarrow> \<not> seq_durationInFrames s \<le> 0"
proof -
  assume "s \<in> set (sequences fps pages)"
  then obtain i where "render_page fps pages (pages ! i) i = Some s"
    using sequences_origin by blast
  then have "0 < seq_durationInFrames s"
    by (rule render_page_positive)
  then show ?thesis by simp
qed

theorem C5_witness:
  "\<lparr>seq_key = 0, seq_from = 0, seq_durationInFrames = 39, seq_page = mk_page 0\<rparr>
     \<in> set (sequences 30 [mk_page 0, mk_page 1300]) \<and>
   \<not> seq_durationInFrames
        \<lparr>seq_key = 0, seq_from = 0, seq_durationInFrames = 39, seq_page = mk_page 0\<rparr> \<le> 0"
  using C5_no_nonpositive_duration
    [of "\<lparr>seq_key = 0, seq_from = 0, seq_durationInFrames = 39, seq_page = mk_page 0\<rparr>"
        30 "[mk_page 0, mk_page 1300]"]
  by (simp add: sequences_example)

text \<open>
  C6: the pages of the rendered intervals are a subsequence of the input pages. The keys
  of the rendered intervals, which are the indices of their pages, increase strictly: a
  page gives at most one interval, none is repeated and the order of the pages is kept.
\<close>

theorem C6_subsequence_in_order:
  "subseq (map seq_page (sequences fps pages)) pages \<and>
   sorted_wrt (<) (map seq_key (sequences fps pages)) \<and>
   (\<forall>s \<in> set (sequences fps pages). seq_key s < length pages \<and> seq_page s = pages ! seq_key s)"
proof -
  let ?g = "\<lambda>index. render_page fps pages (pages ! index) index"
  have g: "\<And>i s. i < length pages \<Longrightarrow> ?g i = Some s \<Longrightarrow> seq_key s = i \<and> seq_page s = pages ! i"
    by (rule render_page_key_page)
  have "subseq (map seq_page (drop_nulls (map ?g [0..<length pages]))) (take (length pages) pages) \<and>
         sorted_wrt (<) (map seq_key (drop_nulls (map ?g [0..<length pages]))) \<and>
         (\<forall>s \<in> set (drop_nulls (map ?g [0..<length pages])). seq_key s < length pages)"
    by (rule drop_nulls_indices[where g = ?g and xs = pages, OF g]) simp_all
  then have a: "subseq (map seq_page (sequences fps pages)) pages"
    and b: "sorted_wrt (<) (map seq_key (sequences fps pages))"
    and c: "\<forall>s \<in> set (sequences fps pages). seq_key s < length pages"
    by (simp_all add: sequences_def pages_map_def)
  have d: "seq_page s = pages ! seq_key s" if "s \<in> set (sequences fps pages)" for s
  proof -
    from that obtain i where "render_page fps pages (pages ! i) i = Some s"
      using sequences_origin by blast
    then show ?thesis using render_page_key_page by metis
  qed
  show ?thesis using a b c d by blast
qed

theorem C6_witness:
  "\<lparr>seq_key = 1, seq_from = 0, seq_durationInFrames = 39, seq_page = mk_page 0\<rparr>
     \<in> set (sequences 30 [mk_page 0, mk_page 0, mk_page 1300]) \<and>
   subseq [mk_page 0, mk_page 1300] [mk_page 0, mk_page 0, mk_page 1300] \<and>
   seq_key \<lparr>seq_key = 1, seq_from = 0, seq_durationInFrames = 39, seq_page = mk_page 0\<rparr>
     < length [mk_page 0, mk_page 0, mk_page 1300]"
  using C6_subsequence_in_order [of 30 "[mk_page 0, mk_page 0, mk_page 1300]"]
  by (simp add: sequences_example_dup)




text \<open>
  C8: when pages \<open>i\<close> and \<open>i + 1\<close> start at the same time, nothing is rendered for page
  \<open>i\<close> (its duration is 0), and page \<open>i + 1\<close> is rendered exactly when its own
  duration, bounded by its successor or by the cap, is positive.
\<close>

theorem C8_identical_startMs:
  assumes "i + 1 < length pages"
      and "startMs (pages ! i) = startMs (pages ! (i + 1))"
  shows "pages_map fps pages ! i = None \<and>
         (pages_map fps pages ! (i + 1) \<noteq> None \<longleftrightarrow>
            0 < (if i + 2 < length pages
                 then min (startMs (pages ! (i + 2)) / 1000 * fps)
                          (startMs (pages ! (i + 1)) / 1000 * fps + SWITCH_CAPTIONS_EVERY_MS)
                 else startMs (pages ! (i + 1)) / 1000 * fps + SWITCH_CAPTIONS_EVERY_MS)
                - startMs (pages ! (i + 1)) / 1000 * fps)"
proof -
  have i: "i < length pages" using assms(1) by simp
  have "min s (s + SWITCH_CAPTIONS_EVERY_MS) - s = 0" for s :: rat
    by (simp add: SWITCH_CAPTIONS_EVERY_MS_def)
  then have "durationInFrames fps pages (pages ! i) i = 0"
    using assms by (simp add: durationInFrames_unfold)
  then have a: "pages_map fps pages ! i = None"
    by (simp add: pages_map_nth[OF i] render_page_eq)
  have "(pages_map fps pages ! (i + 1) \<noteq> None) =
          (0 < durationInFrames fps pages (pages ! (i + 1)) (i + 1))"
    by (simp add: pages_map_nth[OF assms(1)] render_page_eq not_le del: One_nat_def)
  also have "durationInFrames fps pages (pages ! (i + 1)) (i + 1) =
     (if i + 2 < length pages
                 then min (startMs (pages ! (i + 2)) / 1000 * fps)
                          (startMs (pages ! (i + 1)) / 1000 * fps + SWITCH_CAPTIONS_EVERY_MS)
                 else startMs (pages ! (i + 1)) / 1000 * fps + SWITCH_CAPTIONS_EVERY_MS)
                - startMs (pages ! (i + 1)) / 1000 * fps"
    unfolding durationInFrames_unfold by (simp only: add.assoc one_add_one)
  finally show ?thesis using a by blast
qed

theorem C8_witness:
  "(0::nat) + 1 < length [mk_page 0, mk_page 0, mk_page 1300] \<and>
   startMs ([mk_page 0, mk_page 0, mk_page 1300] ! 0) =
     startMs ([mk_page 0, mk_page 0, mk_page 1300] ! (0 + 1)) \<and>
   pages_map 30 [mk_page 0, mk_page 0, mk_page 1300] ! 0 = None \<and>
   pages_map 30 [mk_page 0, mk_page 0, mk_page 1300] ! (0 + 1) \<noteq> None"
  using C8_identical_startMs [of 0 "[mk_page 0, mk_page 0, mk_page 1300]" 30]
  by (simp add: mk_page_def SWITCH_CAPTIONS_EVERY_MS_def)

text \<open>
  C9: with a render handle, when the font fails to load, the subtitle file is not among
  the static files, the fetch throws, the response is not ok or decoding its JSON throws,
  \<open>fetchSubtitles\<close> does not throw, sets the subtitles to the empty list and continues
  the render.
\<close>

theorem C9_degrades_to_empty:
  assumes "\<not> falsy handle"
      and "loadFont env = Throws \<or> \<not> getFileExists env subtitlesFile \<or>
           fetch env subtitlesFile = Throws \<or>
           (\<exists>res. fetch env subtitlesFile = Returns res \<and> (\<not> ok res \<or> json res = Throws))"
  shows "\<exists>st'. fetchSubtitles handle subtitlesFile env st = Returns st' \<and>
               subtitles st' = [] \<and> continued st' = continued st @ [the handle]"
  using assms
  by (auto simp: fetchSubtitles_def try_block_def setSubtitles_def continueRender_def
      split: outcome.splits)

theorem C9_witness:
  "\<not> falsy (Some ''h'') \<and> \<not> getFileExists env_missing ''video.json'' \<and>
   fetchSubtitles (Some ''h'') ''video.json'' env_missing st_loaded =
     Returns \<lparr>subtitles = [], continued = [''h'']\<rparr>"
proof -
  have h: "\<not> falsy (Some ''h'')"
    by (simp add: falsy_def)
  have m: "\<not> getFileExists env_missing ''video.json''"
    by (simp add: getFileExists_def env_missing_def)
  then have f: "loadFont env_missing = Throws \<or> \<not> getFileExists env_missing ''video.json'' \<or>
           fetch env_missing ''video.json'' = Throws \<or>
           (\<exists>res. fetch env_missing ''video.json'' = Returns res \<and>
              (\<not> ok res \<or> json res = Throws))"
    by blast
  have "continued st_loaded = []"
    by (simp add: st_loaded_def)
  with h m C9_degrades_to_empty [OF h f, of st_loaded] show ?thesis
    by auto
qed

text \<open>
  C10: for every probed duration the composition has 30 frames per second, whatever else
  the probed metadata holds, and \<open>Math.floor(durationInSeconds * 30)\<close> frames, the
  product being the binary64 product. The instance is a duration whose binary64 product
  is 20 where the exact product is below 20.
\<close>

theorem C10_fixed_fps_floor_duration:
  assumes "\<bar>mul64 (durationInSeconds metadata) 30\<bar> < 2 ^ 1024"
  shows "\<exists>n. calculateCaptionedVideoMetadata (Returns metadata) =
            Returns \<lparr>meta_fps = 30, meta_durationInFrames = n\<rparr> \<and>
          n = \<lfloor>mul64 (durationInSeconds metadata) 30\<rfloor> \<and>
          of_int n \<le> mul64 (durationInSeconds metadata) 30 \<and>
          mul64 (durationInSeconds metadata) 30 < of_int n + 1"
proof -
  have "rat_of_int \<lfloor>mul64 (durationInSeconds metadata) 30\<rfloor>
          \<le> mul64 (durationInSeconds metadata) 30"
    and "mul64 (durationInSeconds metadata) 30
          < rat_of_int \<lfloor>mul64 (durationInSeconds metadata) 30\<rfloor> + 1"
    by linarith+
  then show ?thesis
    by (simp add: calculateCaptionedVideoMetadata_def)
qed

theorem C10_witness:
  "\<bar>mul64 (6004799503160661 / 9007199254740992) 30\<bar> < 2 ^ 1024 \<and>
   calculateCaptionedVideoMetadata
       (Returns \<lparr>durationInSeconds = 6004799503160661 / 9007199254740992\<rparr>) =
     Returns \<lparr>meta_fps = 30, meta_durationInFrames = 20\<rparr> \<and>
   \<lfloor>6004799503160661 / 9007199254740992 * 30 :: rat\<rfloor> = 19"
proof -
  have r: "\<bar>mul64 (durationInSeconds \<lparr>durationInSeconds = 6004799503160661 / 9007199254740992\<rparr>) 30\<bar>
             < 2 ^ 1024"
    by (simp add: mul64_example)
  have "\<lfloor>6004799503160661 / 9007199254740992 * 30 :: rat\<rfloor> = 19"
    by (simp add: floor_eq_iff)
  then show ?thesis
    using C10_fixed_fps_floor_duration [OF r] by (simp add: mul64_example)
qed

end
